theory Spec2Isabelle
  imports Complex_Main
begin

section \<open>Virus mutation simulator: a shallow embedding of \<^verbatim>\<open>simu.py\<close>\<close>

text \<open>
  The program draws a random genome over the four DNA bases, mutates it generation by
  generation while accumulating the number of changed positions, classifies the outcome
  into a precaution level and, when the level changes the mutation rate, simulates again
  in three segments (active, plateau, decrease).

  Conventions of the embedding:
  \<^item> a genome is a Python \<^verbatim>\<open>str\<close>, here a \<open>string\<close>; Python integers are \<open>int\<close>;
  \<^item> a Python \<^verbatim>\<open>float\<close> is represented by the real number it denotes; comparisons of
    floats are exact, float literals and float multiplication round to the nearest
    binary64 value (function \<open>fl\<close>);
  \<^item> the module-level random generator is an explicit state \<open>rng\<close> threaded through
    every function that draws from it;
  \<^item> every Python exception that an executed operation can raise is a value \<open>Inl e\<close> of
    the result type \<open>py_error + 'a\<close>;
  \<^item> memory and time are not bounded: a list may have any length and a loop any number of
    iterations, so \<^verbatim>\<open>MemoryError\<close> is not modelled. The count given to
    \<^verbatim>\<open>random.choices\<close> is converted to a machine index before anything is allocated,
    and that conversion is modelled (64-bit build).
\<close>

subsection \<open>Exceptions\<close>

datatype py_error = IndexError | ZeroDivisionError | OverflowError

text \<open>\<^verbatim>\<open>xs[-1]\<close>: the last element, \<^verbatim>\<open>IndexError\<close> on an empty list.\<close>

definition py_last :: "'a list \<Rightarrow> py_error + 'a" where
  "py_last xs = (if xs = [] then Inl IndexError else Inr (last xs))"

text \<open>\<^verbatim>\<open>a // b\<close> on integers: floor division, \<^verbatim>\<open>ZeroDivisionError\<close> when \<open>b = 0\<close>.\<close>

definition py_floordiv :: "int \<Rightarrow> int \<Rightarrow> py_error + int" where
  "py_floordiv a b = (if b = 0 then Inl ZeroDivisionError else Inr (a div b))"

subsection \<open>Binary64 floating point\<close>

text \<open>
  \<open>float_exp a\<close> is the binary exponent of a positive real \<open>a\<close>, confined to the range
  \<open>-1022 .. 1023\<close> of binary64: the \<open>e\<close> with \<open>2 ^ e \<le> a < 2 ^ (e + 1)\<close> when there
  is one in that range.
\<close>

fun exp_up :: "nat \<Rightarrow> int \<Rightarrow> real \<Rightarrow> int" where
  "exp_up 0 e a = e"
| "exp_up (Suc n) e a = (if a < 2 powi (e + 1) then e else exp_up n (e + 1) a)"

fun exp_down :: "nat \<Rightarrow> int \<Rightarrow> real \<Rightarrow> int" where
  "exp_down 0 e a = e"
| "exp_down (Suc n) e a = (if 2 powi e \<le> a then e else exp_down n (e - 1) a)"

definition float_exp :: "real \<Rightarrow> int" where
  "float_exp a = (if 1 \<le> a then exp_up 1023 0 a else exp_down 1022 0 a)"

text \<open>Rounding to the nearest integer, ties to the even one.\<close>

definition round_half_even :: "real \<Rightarrow> int" where
  "round_half_even x =
     (let f = \<lfloor>x\<rfloor>; d = x - of_int f
      in if d < 1 / 2 then f else if 1 / 2 < d then f + 1
         else if even f then f else f + 1)"

text \<open>
  \<open>fl x\<close> rounds \<open>x\<close> to the nearest binary64 value (53 significant bits, ties to even,
  gradual underflow below \<open>2 ^ -1022\<close>). The exponent is not bounded above here; the
  one operation of the program that can leave the finite range, the conversion of an
  integer, checks the range itself (\<open>float_of_int\<close>).
\<close>

definition fl :: "real \<Rightarrow> real" where
  "fl x =
     (if x = 0 then 0
      else let a = \<bar>x\<bar>; u = 2 powi (float_exp a - 52)
           in sgn x * (of_int (round_half_even (a / u)) * u))"

text \<open>\<^verbatim>\<open>float(n)\<close> as done implicitly by \<^verbatim>\<open>n * 0.7\<close>: \<^verbatim>\<open>OverflowError\<close> beyond the finite range.\<close>

definition float_of_int :: "int \<Rightarrow> py_error + real" where
  "float_of_int n =
     (let x = fl (of_int n) in if \<bar>x\<bar> < 2 ^ 1024 then Inr x else Inl OverflowError)"

text \<open>Float multiplication \<^verbatim>\<open>x * y\<close> of two finite floats.\<close>

definition fmul :: "real \<Rightarrow> real \<Rightarrow> real" where
  "fmul x y = fl (x * y)"

text \<open>\<^verbatim>\<open>max(a, b)\<close> of Python: the first argument unless the second is greater.\<close>

definition py_max :: "'a::linorder \<Rightarrow> 'a \<Rightarrow> 'a" where
  "py_max a b = (if a < b then b else a)"

subsection \<open>The random source\<close>

text \<open>
  The generator is an infinite sequence of raw draws and a read position. Every call
  consumes one draw. \<^verbatim>\<open>random.random()\<close> yields a float \<open>k / 2 ^ 53\<close> in \<open>[0, 1)\<close>;
  \<^verbatim>\<open>random.choice(seq)\<close> yields an element of \<open>seq\<close> and raises \<^verbatim>\<open>IndexError\<close> on an
  empty sequence; \<^verbatim>\<open>random.choices(population, k=k)\<close> yields \<open>k\<close> elements of the
  population (none for \<open>k \<le> 0\<close>) and raises \<^verbatim>\<open>OverflowError\<close>, before any draw, when
  \<open>k\<close> does not fit the signed 64-bit index type. Quantifying over all \<open>rng\<close> covers
  every outcome of the library's generator.
\<close>

record rng =
  draws :: "nat \<Rightarrow> nat"
  pos :: nat

definition next_draw :: "rng \<Rightarrow> nat \<times> rng" where
  "next_draw r = (draws r (pos r), r\<lparr>pos := Suc (pos r)\<rparr>)"

definition random_random :: "rng \<Rightarrow> real \<times> rng" where
  "random_random r =
     (let (k, r') = next_draw r in (real (k mod 2 ^ 53) / 2 ^ 53, r'))"

definition random_choice :: "'a list \<Rightarrow> rng \<Rightarrow> py_error + ('a \<times> rng)" where
  "random_choice seq r =
     (if seq = [] then Inl IndexError
      else let (k, r') = next_draw r in Inr (seq ! (k mod length seq), r'))"



subsection \<open>Genomes\<close>

definition BASES :: "char list" where
  "BASES = [CHR ''A'', CHR ''T'', CHR ''C'', CHR ''G'']"


text \<open>
  \<^verbatim>\<open>mutate_genome(genome, mutation_rate)\<close>: the loop over the bases, with the string built
  so far as accumulator.
\<close>

fun mutate_loop :: "string \<Rightarrow> real \<Rightarrow> string \<Rightarrow> rng \<Rightarrow> py_error + (string \<times> rng)" where
  "mutate_loop [] mutation_rate mutated r = Inr (mutated, r)"
| "mutate_loop (base # rest) mutation_rate mutated r =
     (let (u, r1) = random_random r
      in if u < mutation_rate
         then (let choices = filter (\<lambda>b. b \<noteq> base) BASES
               in case random_choice choices r1 of
                    Inl e \<Rightarrow> Inl e
                  | Inr (c, r2) \<Rightarrow> mutate_loop rest mutation_rate (mutated @ [c]) r2)
         else mutate_loop rest mutation_rate (mutated @ [base]) r1)"

definition mutate_genome :: "string \<Rightarrow> real \<Rightarrow> rng \<Rightarrow> py_error + (string \<times> rng)" where
  "mutate_genome genome mutation_rate r = mutate_loop genome mutation_rate [] r"

subsection \<open>Generations\<close>

text \<open>\<^verbatim>\<open>sum(1 for a, b in zip(current_genome, new_genome) if a != b)\<close>.\<close>

definition diff_count :: "string \<Rightarrow> string \<Rightarrow> int" where
  "diff_count current_genome new_genome =
     sum_list (map (\<lambda>(a, b). if a \<noteq> b then 1 else 0) (zip current_genome new_genome))"

text \<open>
  The loop of \<^verbatim>\<open>simulate_generations\<close>; \<^verbatim>\<open>range(generations)\<close> runs \<open>nat generations\<close>
  times, that is not at all for a negative count.
\<close>

fun simulate_loop ::
  "nat \<Rightarrow> real \<Rightarrow> string \<Rightarrow> string list \<Rightarrow> int list \<Rightarrow> rng
     \<Rightarrow> py_error + ((string list \<times> int list) \<times> rng)" where
  "simulate_loop 0 mutation_rate current_genome genomes mutations r =
     Inr ((genomes, mutations), r)"
| "simulate_loop (Suc n) mutation_rate current_genome genomes mutations r =
     (case mutate_genome current_genome mutation_rate r of
        Inl e \<Rightarrow> Inl e
      | Inr (new_genome, r') \<Rightarrow>
          (let diff = diff_count current_genome new_genome
           in case py_last mutations of
                Inl e \<Rightarrow> Inl e
              | Inr m \<Rightarrow>
                  simulate_loop n mutation_rate new_genome
                    (genomes @ [new_genome]) (mutations @ [m + diff]) r'))"

definition simulate_generations ::
  "string \<Rightarrow> int \<Rightarrow> real \<Rightarrow> rng \<Rightarrow> py_error + ((string list \<times> int list) \<times> rng)" where
  "simulate_generations initial_genome generations mutation_rate r =
     simulate_loop (nat generations) mutation_rate initial_genome [initial_genome] [0] r"

subsection \<open>Precaution level and adjusted rate (lines 73 to 111)\<close>

datatype precaution_level = Low | Moderate | High

definition precaution ::
  "int \<Rightarrow> real \<Rightarrow> int \<Rightarrow> py_error + (precaution_level \<times> real)" where
  "precaution mutation_total mutation_rate len =
     (case float_of_int len of
        Inl e \<Rightarrow> Inl e
      | Inr flen \<Rightarrow>
          (let high_threshold = fmul flen (fl (7 / 10));
               moderate_threshold = fmul flen (fl (3 / 10))
           in if high_threshold < of_int mutation_total \<or> fl (3 / 10) < mutation_rate
              then Inr (High, py_max (fl (1 / 100)) (fmul mutation_rate (fl (1 / 2))))
              else if moderate_threshold < of_int mutation_total \<or> fl (15 / 100) < mutation_rate
              then Inr (Moderate, py_max (fl (1 / 100)) (fmul mutation_rate (fl (7 / 10))))
              else Inr (Low, mutation_rate)))"

subsection \<open>Simulation after the precaution (lines 114 to 137)\<close>

record adjusted_run =
  genomes2 :: "string list"
  mutations2 :: "int list"
  plateau_genomes :: "string list"
  plateau_mutations :: "int list"
  decrease_genomes :: "string list"
  decrease_mutations :: "int list"
  all_genomes2 :: "string list"
  all_mutations2 :: "int list"

text \<open>
  The decrease loop (lines 129 to 133): \<open>n\<close> iterations remain, \<open>current_mutation\<close> and
  the two lists built so far are the loop state.
\<close>

fun decrease_loop ::
  "nat \<Rightarrow> int \<Rightarrow> int \<Rightarrow> string list \<Rightarrow> int \<Rightarrow> int list \<Rightarrow> string list
     \<Rightarrow> py_error + (int list \<times> string list)" where
  "decrease_loop 0 plateau_mutation repair_gens gs2 current_mutation dm dg = Inr (dm, dg)"
| "decrease_loop (Suc n) plateau_mutation repair_gens gs2 current_mutation dm dg =
     (case py_floordiv plateau_mutation repair_gens of
        Inl e \<Rightarrow> Inl e
      | Inr q \<Rightarrow>
          (let current_mutation' = py_max 0 (current_mutation - py_max 1 q)
           in case py_last gs2 of
                Inl e \<Rightarrow> Inl e
              | Inr g \<Rightarrow>
                  decrease_loop n plateau_mutation repair_gens gs2 current_mutation'
                    (dm @ [current_mutation']) (dg @ [g])))"

definition simulate_after_precaution ::
  "string \<Rightarrow> int \<Rightarrow> real \<Rightarrow> rng \<Rightarrow> py_error + (adjusted_run \<times> rng)" where
  "simulate_after_precaution initial_genome generations new_mutation_rate r =
     (let plateau_gens = generations div 2;
          repair_gens = generations - plateau_gens
      in case simulate_generations initial_genome plateau_gens new_mutation_rate r of
           Inl e \<Rightarrow> Inl e
         | Inr ((gs2, ms2), r') \<Rightarrow>
             (case py_last ms2 of
                Inl e \<Rightarrow> Inl e
              | Inr plateau_mutation \<Rightarrow>
                  (case py_last gs2 of
                     Inl e \<Rightarrow> Inl e
                   | Inr g \<Rightarrow>
                       (let pgs = replicate (nat (repair_gens div 2)) g;
                            pms = replicate (nat (repair_gens div 2)) plateau_mutation
                        in case decrease_loop (nat (repair_gens - int (length pms)))
                                  plateau_mutation repair_gens gs2 plateau_mutation [] [] of
                             Inl e \<Rightarrow> Inl e
                           | Inr (dms, dgs) \<Rightarrow>
                               Inr (\<lparr>genomes2 = gs2, mutations2 = ms2,
                                     plateau_genomes = pgs, plateau_mutations = pms,
                                     decrease_genomes = dgs, decrease_mutations = dms,
                                     all_genomes2 = gs2 @ pgs @ dgs,
                                     all_mutations2 = ms2 @ pms @ dms\<rparr>, r')))))"

subsection \<open>The precaution as a whole (lines 73 to 137)\<close>

text \<open>
  The level, the adjusted rate and, when the adjusted rate differs from the given one,
  the run simulated after the precaution; otherwise no run, and no draw is consumed.
\<close>

definition advise ::
  "string \<Rightarrow> real \<Rightarrow> int \<Rightarrow> int \<Rightarrow> int \<Rightarrow> rng
     \<Rightarrow> py_error + ((precaution_level \<times> real \<times> adjusted_run option) \<times> rng)" where
  "advise initial_genome mutation_rate generations mutation_total len r =
     (case precaution mutation_total mutation_rate len of
        Inl e \<Rightarrow> Inl e
      | Inr (level, new_mutation_rate) \<Rightarrow>
          if new_mutation_rate \<noteq> mutation_rate
          then (case simulate_after_precaution initial_genome generations new_mutation_rate r of
                  Inl e \<Rightarrow> Inl e
                | Inr (run, r') \<Rightarrow> Inr ((level, new_mutation_rate, Some run), r'))
          else Inr ((level, new_mutation_rate, None), r))"

subsection \<open>Notions of the specification\<close>

text \<open>
  The Hamming distance in the specification's words: the number of positions at which
  two sequences differ.
\<close>

definition hamming_distance :: "'a list \<Rightarrow> 'a list \<Rightarrow> int" where
  "hamming_distance xs ys =
     int (length (filter (\<lambda>i. xs ! i \<noteq> ys ! i) [0..<min (length xs) (length ys)]))"

text \<open>
  The severity tier and the adjusted rate in the specification's words, over the real
  numbers: thresholds \<open>0.7 * length\<close> and \<open>0.3 * length\<close>, rates \<open>0.30\<close> and \<open>0.15\<close>.
\<close>

definition spec_tier :: "int \<Rightarrow> real \<Rightarrow> int \<Rightarrow> precaution_level" where
  "spec_tier final_mutation_total rate len =
     (if 7 / 10 * real_of_int len < real_of_int final_mutation_total \<or> 30 / 100 < rate then High
      else if 3 / 10 * real_of_int len < real_of_int final_mutation_total \<or> 15 / 100 < rate
      then Moderate
      else Low)"

definition spec_adjusted_rate :: "precaution_level \<Rightarrow> real \<Rightarrow> real" where
  "spec_adjusted_rate tier rate =
     (case tier of
        High \<Rightarrow> max (1 / 100) (rate * (5 / 10))
      | Moderate \<Rightarrow> max (1 / 100) (rate * (7 / 10))
      | Low \<Rightarrow> rate)"

subsection \<open>Predicates used in the proofs\<close>

text \<open>
  One position of one mutation round: the base \<open>b\<close> that \<^verbatim>\<open>mutate_genome\<close> can put in the
  place of \<open>a\<close>. It keeps \<open>a\<close>, which needs a draw that is not below the rate, so a rate
  below 1; or it takes one of the other bases, which needs a draw below the rate, so a
  positive rate.
\<close>

definition base_step :: "real \<Rightarrow> char \<Rightarrow> char \<Rightarrow> bool" where
  "base_step rate a b =
     ((b = a \<and> rate < 1) \<or> (b \<in> set (filter (\<lambda>x. x \<noteq> a) BASES) \<and> 0 < rate))"

text \<open>
  A run of the generation loop seen from outside: starting at genome \<open>g\<close> with count
  \<open>m\<close>, each further genome is one mutation round away from its predecessor and each
  further count adds the number of changed positions.
\<close>

fun trace_steps :: "real \<Rightarrow> string \<Rightarrow> int \<Rightarrow> string list \<Rightarrow> int list \<Rightarrow> bool" where
  "trace_steps rate g m [] [] = True"
| "trace_steps rate g m (g' # gs) (m' # ms) =
     (list_all2 (base_step rate) g g' \<and> m' = m + diff_count g g' \<and> trace_steps rate g' m' gs ms)"
| "trace_steps rate g m [] (m' # ms) = False"
| "trace_steps rate g m (g' # gs) [] = False"

text \<open>A run of the decrease loop: each count is the previous one less the step, not below 0.\<close>

fun decay_steps :: "int \<Rightarrow> int \<Rightarrow> int list \<Rightarrow> bool" where
  "decay_steps step cur [] = True"
| "decay_steps step cur (d # ds) = (d = py_max 0 (cur - step) \<and> decay_steps step d ds)"

text \<open>The number of iterations of the decrease loop.\<close>

definition decrease_count :: "int \<Rightarrow> nat" where
  "decrease_count repair_gens = nat (repair_gens - int (nat (repair_gens div 2)))"

text \<open>A fixed random source for the concrete runs below.\<close>

definition rng0 :: rng where
  "rng0 = \<lparr>draws = (\<lambda>i. i * (2 ^ 51 + 2)), pos = 0\<rparr>"

section \<open>Properties of the building blocks\<close>

lemma random_random_range:
  "random_random r = (u, r') \<Longrightarrow> 0 \<le> u \<and> u < 1"
proof -
  assume h: "random_random r = (u, r')"
  have u: "u = real (draws r (pos r) mod 2 ^ 53) / 2 ^ 53"
    using h by (simp add: random_random_def next_draw_def)
  have "draws r (pos r) mod 2 ^ 53 < (2::nat) ^ 53" by simp
  then have "real (draws r (pos r) mod 2 ^ 53) < real ((2::nat) ^ 53)"
    by (rule iffD2 [OF of_nat_less_iff])
  then show ?thesis unfolding u by simp
qed

lemma distinct_BASES: "distinct BASES"
  by (simp add: BASES_def)

lemma length_BASES: "length BASES = 4"
  by (simp add: BASES_def)

lemma choices_nonempty: "filter (\<lambda>b. b \<noteq> base) BASES \<noteq> []"
  by (auto simp: BASES_def)

lemma choices_three:
  "base \<in> set BASES \<Longrightarrow> length (filter (\<lambda>b. b \<noteq> base) BASES) = 3"
  by (auto simp: BASES_def)

lemma random_choice_member:
  "seq \<noteq> [] \<Longrightarrow> \<exists>c r'. random_choice seq r = Inr (c, r') \<and> c \<in> set seq"
  by (simp add: random_choice_def next_draw_def)

lemma random_choice_base:
  "\<exists>c r'. random_choice (filter (\<lambda>b. b \<noteq> base) BASES) r = Inr (c, r')
     \<and> c \<in> set BASES \<and> c \<noteq> base"
  using random_choice_member [OF choices_nonempty, of base r] by auto

lemma mutate_loop_steps:
  "\<exists>out r'. mutate_loop genome rate mutated r = Inr (mutated @ out, r')
     \<and> list_all2 (base_step rate) genome out"
proof (induction genome arbitrary: mutated r)
  case Nil
  show ?case by simp
next
  case (Cons base rest)
  obtain u r1 where rr: "random_random r = (u, r1)" by (cases "random_random r")
  from random_random_range [OF rr] have u: "0 \<le> u" "u < 1" by simp_all
  show ?case
  proof (cases "u < rate")
    case True
    obtain c r2 where ch: "random_choice (filter (\<lambda>b. b \<noteq> base) BASES) r1 = Inr (c, r2)"
      and c: "c \<in> set BASES" "c \<noteq> base"
      using random_choice_base [of base r1] by blast
    obtain out r' where ih: "mutate_loop rest rate (mutated @ [c]) r2 = Inr ((mutated @ [c]) @ out, r')"
      and st: "list_all2 (base_step rate) rest out"
      using Cons.IH [of "mutated @ [c]" r2] by blast
    have "mutate_loop (base # rest) rate mutated r = Inr (mutated @ (c # out), r')"
      using rr True ch ih by simp
    moreover have "base_step rate base c"
      using c u True by (simp add: base_step_def)
    ultimately show ?thesis using st by blast
  next
    case False
    obtain out r' where ih: "mutate_loop rest rate (mutated @ [base]) r1 = Inr ((mutated @ [base]) @ out, r')"
      and st: "list_all2 (base_step rate) rest out"
      using Cons.IH [of "mutated @ [base]" r1] by blast
    have "mutate_loop (base # rest) rate mutated r = Inr (mutated @ (base # out), r')"
      using rr False ih by simp
    moreover have "base_step rate base base"
      using u False by (simp add: base_step_def)
    ultimately show ?thesis using st by blast
  qed
qed

lemma mutate_genome_steps:
  "\<exists>out r'. mutate_genome genome rate r = Inr (out, r') \<and> list_all2 (base_step rate) genome out"
  using mutate_loop_steps [of genome rate "[]" r] by (simp add: mutate_genome_def)


lemma base_step_length: "list_all2 (base_step rate) g g' \<Longrightarrow> length g' = length g"
  by (simp add: list_all2_lengthD)


lemma diff_count_nonneg: "0 \<le> diff_count xs ys"
  unfolding diff_count_def by (rule sum_list_nonneg) auto

lemma zip_as_nth:
  "zip xs ys = map (\<lambda>i. (xs ! i, ys ! i)) [0..<min (length xs) (length ys)]"
  by (rule nth_equalityI) simp_all

lemma sum_indicator_filter:
  "sum_list (map (\<lambda>p. if P p then (1::int) else 0) ps) = int (length (filter P ps))"
  by (induction ps) simp_all

lemma diff_count_hamming: "diff_count xs ys = hamming_distance xs ys"
proof -
  have "diff_count xs ys = int (length (filter (\<lambda>(a, b). a \<noteq> b) (zip xs ys)))"
    unfolding diff_count_def
    using sum_indicator_filter [of "\<lambda>(a, b). a \<noteq> b" "zip xs ys"]
    by (simp add: case_prod_unfold)
  also have "\<dots> = hamming_distance xs ys"
    unfolding hamming_distance_def
    by (subst zip_as_nth) (simp add: filter_map comp_def)
  finally show ?thesis .
qed

lemma py_last_nonempty: "xs \<noteq> [] \<Longrightarrow> py_last xs = Inr (last xs)"
  by (simp add: py_last_def)

lemma simulate_loop_steps:
  "mutations \<noteq> [] \<Longrightarrow>
   \<exists>gs ms r'. simulate_loop n rate cur genomes mutations r = Inr ((genomes @ gs, mutations @ ms), r')
     \<and> length gs = n \<and> trace_steps rate cur (last mutations) gs ms"
proof (induction n arbitrary: cur genomes mutations r)
  case 0
  show ?case by simp
next
  case (Suc n)
  obtain new r1 where mg: "mutate_genome cur rate r = Inr (new, r1)"
    and st: "list_all2 (base_step rate) cur new"
    using mutate_genome_steps [of cur rate r] by blast
  let ?m = "last mutations + diff_count cur new"
  have ne: "mutations @ [?m] \<noteq> []" by simp
  obtain gs ms r' where
    ih: "simulate_loop n rate new (genomes @ [new]) (mutations @ [?m]) r1
           = Inr (((genomes @ [new]) @ gs, (mutations @ [?m]) @ ms), r')"
    and len: "length gs = n"
    and tr: "trace_steps rate new (last (mutations @ [?m])) gs ms"
    using Suc.IH [OF ne, of new "genomes @ [new]" r1] by blast
  have "simulate_loop (Suc n) rate cur genomes mutations r
          = Inr ((genomes @ (new # gs), mutations @ (?m # ms)), r')"
    using mg ih py_last_nonempty [OF Suc.prems] by simp
  moreover have "length (new # gs) = Suc n" using len by simp
  moreover have "trace_steps rate cur (last mutations) (new # gs) (?m # ms)"
    using st tr by simp
  ultimately show ?case by blast
qed

lemma simulate_generations_steps:
  "\<exists>gs ms r'. simulate_generations initial generations rate r = Inr ((initial # gs, 0 # ms), r')
     \<and> length gs = nat generations \<and> trace_steps rate initial 0 gs ms"
  using simulate_loop_steps [of "[0]" "nat generations" rate initial "[initial]" r]
  by (simp add: simulate_generations_def)

lemma trace_steps_length: "trace_steps rate g m gs ms \<Longrightarrow> length ms = length gs"
  by (induction rate g m gs ms rule: trace_steps.induct) simp_all

lemma trace_steps_nth:
  "trace_steps rate g m gs ms \<Longrightarrow> i < length gs \<Longrightarrow>
   (m # ms) ! Suc i = (m # ms) ! i + diff_count ((g # gs) ! i) ((g # gs) ! Suc i)
   \<and> list_all2 (base_step rate) ((g # gs) ! i) ((g # gs) ! Suc i)"
proof (induction rate g m gs ms arbitrary: i rule: trace_steps.induct)
  case (2 rate g m g' gs m' ms)
  from "2.prems" have a: "list_all2 (base_step rate) g g'" and b: "m' = m + diff_count g g'"
    and c: "trace_steps rate g' m' gs ms" by auto
  show ?case
  proof (cases i)
    case 0
    with a b show ?thesis by simp
  next
    case (Suc j)
    with "2.prems" have "j < length gs" by simp
    from "2.IH" [OF c this] Suc show ?thesis by simp
  qed
qed simp_all

lemma trace_steps_sorted: "trace_steps rate g m gs ms \<Longrightarrow> sorted (m # ms)"
proof (induction rate g m gs ms rule: trace_steps.induct)
  case (2 rate g m g' gs m' ms)
  from "2.prems" have b: "m' = m + diff_count g g'"
    and c: "trace_steps rate g' m' gs ms" by auto
  have s: "sorted (m' # ms)" by (rule "2.IH" [OF c])
  have m: "m \<le> m'" using b diff_count_nonneg [of g g'] by simp
  from s m show ?case by auto
qed simp_all

lemma trace_steps_lengths:
  "trace_steps rate g m gs ms \<Longrightarrow> x \<in> set gs \<Longrightarrow> length x = length g"
  by (induction rate g m gs ms rule: trace_steps.induct) (auto dest: base_step_length)


lemma trace_steps_nonneg:
  "trace_steps rate g m gs ms \<Longrightarrow> 0 \<le> m \<Longrightarrow> x \<in> set ms \<Longrightarrow> 0 \<le> x"
  using trace_steps_sorted [of rate g m gs ms] by auto


lemma decrease_loop_steps:
  "n = 0 \<or> (repair_gens \<noteq> 0 \<and> gs2 \<noteq> []) \<Longrightarrow>
   \<exists>ds. decrease_loop n pm repair_gens gs2 cur dm dg
          = Inr (dm @ ds, dg @ replicate n (last gs2))
     \<and> length ds = n \<and> decay_steps (py_max 1 (pm div repair_gens)) cur ds"
proof (induction n arbitrary: cur dm dg)
  case 0
  show ?case by simp
next
  case (Suc n)
  then have rg: "repair_gens \<noteq> 0" and ne: "gs2 \<noteq> []" by simp_all
  let ?c = "py_max 0 (cur - py_max 1 (pm div repair_gens))"
  obtain ds where
    ih: "decrease_loop n pm repair_gens gs2 ?c (dm @ [?c]) (dg @ [last gs2])
           = Inr ((dm @ [?c]) @ ds, (dg @ [last gs2]) @ replicate n (last gs2))"
    and len: "length ds = n"
    and st: "decay_steps (py_max 1 (pm div repair_gens)) ?c ds"
    using Suc.IH [of ?c "dm @ [?c]" "dg @ [last gs2]"] rg ne by blast
  have "decrease_loop (Suc n) pm repair_gens gs2 cur dm dg
          = Inr (dm @ (?c # ds), dg @ replicate (Suc n) (last gs2))"
    using ih rg py_last_nonempty [OF ne] by (simp add: py_floordiv_def)
  moreover have "length (?c # ds) = Suc n" using len by simp
  moreover have "decay_steps (py_max 1 (pm div repair_gens)) cur (?c # ds)"
    using st by simp
  ultimately show ?case by blast
qed

lemma decay_steps_nth:
  "decay_steps step cur ds \<Longrightarrow> j < length ds \<Longrightarrow>
   (cur # ds) ! Suc j = py_max 0 ((cur # ds) ! j - step)"
proof (induction ds arbitrary: cur j)
  case Nil
  then show ?case by simp
next
  case (Cons d ds)
  from Cons.prems have d: "d = py_max 0 (cur - step)" and c: "decay_steps step d ds" by auto
  show ?case
  proof (cases j)
    case 0
    with d show ?thesis by simp
  next
    case (Suc i)
    with Cons.prems have "i < length ds" by simp
    from Cons.IH [OF c this] Suc show ?thesis by simp
  qed
qed

lemma decay_steps_nonneg: "decay_steps step cur ds \<Longrightarrow> d \<in> set ds \<Longrightarrow> 0 \<le> d"
  by (induction ds arbitrary: cur) (auto simp: py_max_def)

lemma decrease_count_pos: "0 < decrease_count repair_gens \<Longrightarrow> repair_gens \<noteq> 0"
  by (auto simp: decrease_count_def)

lemma simulate_after_precaution_shape:
  "\<exists>gs ms ds r'.
     simulate_after_precaution initial generations new_rate r =
       Inr (\<lparr>genomes2 = initial # gs, mutations2 = 0 # ms,
             plateau_genomes =
               replicate (nat ((generations - generations div 2) div 2)) (last (initial # gs)),
             plateau_mutations =
               replicate (nat ((generations - generations div 2) div 2)) (last (0 # ms)),
             decrease_genomes =
               replicate (decrease_count (generations - generations div 2)) (last (initial # gs)),
             decrease_mutations = ds,
             all_genomes2 = (initial # gs)
               @ replicate (nat ((generations - generations div 2) div 2)) (last (initial # gs))
               @ replicate (decrease_count (generations - generations div 2)) (last (initial # gs)),
             all_mutations2 = (0 # ms)
               @ replicate (nat ((generations - generations div 2) div 2)) (last (0 # ms))
               @ ds\<rparr>, r')
     \<and> length gs = nat (generations div 2)
     \<and> trace_steps new_rate initial 0 gs ms
     \<and> length ds = decrease_count (generations - generations div 2)
     \<and> decay_steps (py_max 1 (last (0 # ms) div (generations - generations div 2)))
          (last (0 # ms)) ds"
proof -
  let ?rg = "generations - generations div 2"
  obtain gs ms r' where
    sim: "simulate_generations initial (generations div 2) new_rate r = Inr ((initial # gs, 0 # ms), r')"
    and len: "length gs = nat (generations div 2)"
    and tr: "trace_steps new_rate initial 0 gs ms"
    using simulate_generations_steps [of initial "generations div 2" new_rate r] by blast
  have pre: "decrease_count ?rg = 0 \<or> (?rg \<noteq> 0 \<and> initial # gs \<noteq> [])"
    using decrease_count_pos [of ?rg] by auto
  obtain ds where
    dl: "decrease_loop (decrease_count ?rg) (last (0 # ms)) ?rg (initial # gs) (last (0 # ms)) [] []
           = Inr ([] @ ds, [] @ replicate (decrease_count ?rg) (last (initial # gs)))"
    and dlen: "length ds = decrease_count ?rg"
    and dst: "decay_steps (py_max 1 (last (0 # ms) div ?rg)) (last (0 # ms)) ds"
    using decrease_loop_steps [OF pre, of "last (0 # ms)" "last (0 # ms)" "[]" "[]"] by blast
  have "simulate_after_precaution initial generations new_rate r =
       Inr (\<lparr>genomes2 = initial # gs, mutations2 = 0 # ms,
             plateau_genomes = replicate (nat (?rg div 2)) (last (initial # gs)),
             plateau_mutations = replicate (nat (?rg div 2)) (last (0 # ms)),
             decrease_genomes = replicate (decrease_count ?rg) (last (initial # gs)),
             decrease_mutations = ds,
             all_genomes2 = (initial # gs)
               @ replicate (nat (?rg div 2)) (last (initial # gs))
               @ replicate (decrease_count ?rg) (last (initial # gs)),
             all_mutations2 = (0 # ms) @ replicate (nat (?rg div 2)) (last (0 # ms)) @ ds\<rparr>, r')"
    unfolding simulate_after_precaution_def Let_def
    using sim dl by (simp add: py_last_def decrease_count_def)
  with len tr dlen dst show ?thesis by blast
qed





lemma base_step_zero: "list_all2 (base_step rate) g g' \<Longrightarrow> rate \<le> 0 \<Longrightarrow> g' = g"
proof (induction rule: list_all2_induct)
  case Nil
  show ?case by simp
next
  case (Cons a g b g')
  then show ?case by (simp add: base_step_def)
qed

lemma base_step_nth:
  "list_all2 (base_step rate) g g' \<Longrightarrow> i < length g \<Longrightarrow> base_step rate (g ! i) (g' ! i)"
  by (simp add: list_all2_nthD)

lemma py_max_eq_max: "py_max a b = max a b"
  by (auto simp: py_max_def max_def)


lemma nth_after_prefix:
  "xs \<noteq> [] \<Longrightarrow> length xs \<le> k \<Longrightarrow>
   (xs @ ds) ! k = ds ! (k - length xs) \<and> (xs @ ds) ! (k - 1) = (last xs # ds) ! (k - length xs)"
proof -
  assume ne: "xs \<noteq> []" and le: "length xs \<le> k"
  have a: "(xs @ ds) ! k = ds ! (k - length xs)" using le by (simp add: nth_append)
  have b: "(xs @ ds) ! (k - 1) = (last xs # ds) ! (k - length xs)"
  proof (cases "k = length xs")
    case True
    then show ?thesis using ne by (simp add: nth_append last_conv_nth)
  next
    case False
    with le have lt: "length xs < k" by simp
    then obtain j where j: "k - length xs = Suc j" by (cases "k - length xs") auto
    from lt have ge: "\<not> k - 1 < length xs" by simp
    from lt j have d: "k - 1 - length xs = j" by simp
    have "(xs @ ds) ! (k - 1) = ds ! (k - 1 - length xs)"
      using ge by (simp only: nth_append if_False)
    with d j show ?thesis by simp
  qed
  from a b show ?thesis ..
qed

text \<open>One iteration of the generation loop at a numeral count, for evaluating concrete runs.\<close>

lemma simulate_loop_numeral:
  "simulate_loop (numeral k) rate cur gs ms r =
     (case mutate_genome cur rate r of
        Inl e \<Rightarrow> Inl e
      | Inr (new_genome, r') \<Rightarrow>
          (let diff = diff_count cur new_genome
           in case py_last ms of
                Inl e \<Rightarrow> Inl e
              | Inr m \<Rightarrow>
                  simulate_loop (pred_numeral k) rate new_genome
                    (gs @ [new_genome]) (ms @ [m + diff]) r'))"
  using simulate_loop.simps(2) [of "pred_numeral k" rate cur gs ms r]
  by (simp only: numeral_eq_Suc)


lemma decrease_count_nonneg:
  "0 \<le> repair_gens \<Longrightarrow> int (decrease_count repair_gens) = repair_gens - repair_gens div 2"
proof -
  assume "0 \<le> repair_gens"
  then have "0 \<le> repair_gens div 2" and "repair_gens div 2 \<le> repair_gens" by simp_all
  then show ?thesis by (simp add: decrease_count_def)
qed

lemma simulate_after_precaution_fields:
  assumes rg: "repair_gens = generations - generations div 2"
  shows "\<exists>run r' gs ms ds.
     simulate_after_precaution initial generations new_rate r = Inr (run, r')
     \<and> genomes2 run = initial # gs
     \<and> mutations2 run = 0 # ms
     \<and> plateau_genomes run = replicate (nat (repair_gens div 2)) (last (initial # gs))
     \<and> plateau_mutations run = replicate (nat (repair_gens div 2)) (last (0 # ms))
     \<and> decrease_genomes run = replicate (decrease_count repair_gens) (last (initial # gs))
     \<and> decrease_mutations run = ds
     \<and> all_genomes2 run = genomes2 run @ plateau_genomes run @ decrease_genomes run
     \<and> all_mutations2 run = mutations2 run @ plateau_mutations run @ decrease_mutations run
     \<and> length gs = nat (generations div 2)
     \<and> length ms = nat (generations div 2)
     \<and> trace_steps new_rate initial 0 gs ms
     \<and> length ds = decrease_count repair_gens
     \<and> decay_steps (max 1 (last (0 # ms) div repair_gens)) (last (0 # ms)) ds"
proof -
  obtain gs ms ds r' where
    eq: "simulate_after_precaution initial generations new_rate r =
       Inr (\<lparr>genomes2 = initial # gs, mutations2 = 0 # ms,
             plateau_genomes =
               replicate (nat ((generations - generations div 2) div 2)) (last (initial # gs)),
             plateau_mutations =
               replicate (nat ((generations - generations div 2) div 2)) (last (0 # ms)),
             decrease_genomes =
               replicate (decrease_count (generations - generations div 2)) (last (initial # gs)),
             decrease_mutations = ds,
             all_genomes2 = (initial # gs)
               @ replicate (nat ((generations - generations div 2) div 2)) (last (initial # gs))
               @ replicate (decrease_count (generations - generations div 2)) (last (initial # gs)),
             all_mutations2 = (0 # ms)
               @ replicate (nat ((generations - generations div 2) div 2)) (last (0 # ms))
               @ ds\<rparr>, r')"
    and len: "length gs = nat (generations div 2)"
    and tr: "trace_steps new_rate initial 0 gs ms"
    and dlen: "length ds = decrease_count (generations - generations div 2)"
    and dst: "decay_steps (py_max 1 (last (0 # ms) div (generations - generations div 2)))
          (last (0 # ms)) ds"
    using simulate_after_precaution_shape [of initial generations new_rate r] by blast
  have lms: "length ms = nat (generations div 2)" using trace_steps_length [OF tr] len by simp
  define run where "run =
        \<lparr>genomes2 = initial # gs, mutations2 = 0 # ms,
             plateau_genomes = replicate (nat (repair_gens div 2)) (last (initial # gs)),
             plateau_mutations = replicate (nat (repair_gens div 2)) (last (0 # ms)),
             decrease_genomes = replicate (decrease_count repair_gens) (last (initial # gs)),
             decrease_mutations = ds,
             all_genomes2 = (initial # gs)
               @ replicate (nat (repair_gens div 2)) (last (initial # gs))
               @ replicate (decrease_count repair_gens) (last (initial # gs)),
             all_mutations2 = (0 # ms)
               @ replicate (nat (repair_gens div 2)) (last (0 # ms)) @ ds\<rparr>"
  have run: "simulate_after_precaution initial generations new_rate r = Inr (run, r')"
    unfolding run_def rg by (rule eq)
  have f: "genomes2 run = initial # gs" "mutations2 run = 0 # ms"
    "plateau_genomes run = replicate (nat (repair_gens div 2)) (last (initial # gs))"
    "plateau_mutations run = replicate (nat (repair_gens div 2)) (last (0 # ms))"
    "decrease_genomes run = replicate (decrease_count repair_gens) (last (initial # gs))"
    "decrease_mutations run = ds"
    unfolding run_def by (simp_all only: adjusted_run.select_convs)
  have c: "all_genomes2 run = genomes2 run @ plateau_genomes run @ decrease_genomes run"
    "all_mutations2 run = mutations2 run @ plateau_mutations run @ decrease_mutations run"
    unfolding run_def by (simp_all only: adjusted_run.select_convs)
  have dlen': "length ds = decrease_count repair_gens" using dlen rg by simp
  have dst': "decay_steps (max 1 (last (0 # ms) div repair_gens)) (last (0 # ms)) ds"
    using dst unfolding rg py_max_eq_max .
  show ?thesis
    by (rule exI [of _ run], rule exI [of _ r'], rule exI [of _ gs], rule exI [of _ ms],
        rule exI [of _ ds]) (intro conjI run f c len lms tr dlen' dst')
qed









section \<open>The mutation operator\<close>

text \<open>
  Claim C4. For every genome over the four bases, every rate and every state of the
  random source, \<^verbatim>\<open>mutate_genome\<close> returns a genome of the same length, and at every
  position the base is either the original one, or one of the bases left when the
  original is removed from \<open>BASES\<close>; there are exactly three of them, and the new base
  differs from the original. The bounds \<open>0 \<le> rate \<le> 1\<close> of the claim are not needed.
\<close>

theorem mutate_genome_substitution:
  assumes "set genome \<subseteq> set BASES"
  shows "\<exists>mutated r'. mutate_genome genome mutation_rate r = Inr (mutated, r')
     \<and> length mutated = length genome
     \<and> (\<forall>i<length genome.
           mutated ! i = genome ! i
           \<or> (mutated ! i \<in> set (filter (\<lambda>b. b \<noteq> genome ! i) BASES)
              \<and> length (filter (\<lambda>b. b \<noteq> genome ! i) BASES) = 3
              \<and> mutated ! i \<noteq> genome ! i))"
proof -
  obtain mutated r' where m: "mutate_genome genome mutation_rate r = Inr (mutated, r')"
    and st: "list_all2 (base_step mutation_rate) genome mutated"
    using mutate_genome_steps [of genome mutation_rate r] by blast
  have len: "length mutated = length genome" by (rule base_step_length [OF st])
  have "mutated ! i = genome ! i
           \<or> (mutated ! i \<in> set (filter (\<lambda>b. b \<noteq> genome ! i) BASES)
              \<and> length (filter (\<lambda>b. b \<noteq> genome ! i) BASES) = 3
              \<and> mutated ! i \<noteq> genome ! i)" if i: "i < length genome" for i
  proof -
    from i assms have mem: "genome ! i \<in> set BASES" by auto
    from base_step_nth [OF st i] choices_three [OF mem] show ?thesis
      by (auto simp: base_step_def)
  qed
  with m len show ?thesis by blast
qed

text \<open>The hypothesis holds of \<^verbatim>\<open>ATCGATCG\<close>; the theorem at that genome and rate 0.3.\<close>

theorem mutate_genome_substitution_witness:
  "set ''ATCGATCG'' \<subseteq> set BASES
   \<and> (\<exists>mutated r'. mutate_genome ''ATCGATCG'' (3 / 10) rng0 = Inr (mutated, r')
        \<and> length mutated = 8
        \<and> (mutated ! 0 = CHR ''A'' \<or> mutated ! 0 \<in> {CHR ''T'', CHR ''C'', CHR ''G''}))"
proof -
  have h: "set ''ATCGATCG'' \<subseteq> set BASES" by (simp add: BASES_def)
  from mutate_genome_substitution [OF h, of "3 / 10" rng0] show ?thesis
    using h by (auto simp: BASES_def)
qed

text \<open>
  Claim C5. At rate 0 \<^verbatim>\<open>mutate_genome\<close> returns its input, whatever the random source
  draws: no draw of \<^verbatim>\<open>random.random()\<close> is below 0.
\<close>

theorem mutate_genome_rate_zero:
  "\<exists>r'. mutate_genome genome 0 r = Inr (genome, r')"
proof -
  obtain mutated r' where m: "mutate_genome genome 0 r = Inr (mutated, r')"
    and st: "list_all2 (base_step 0) genome mutated"
    using mutate_genome_steps [of genome 0 r] by blast
  from base_step_zero [OF st] m show ?thesis by auto
qed

theorem mutate_genome_rate_zero_witness:
  "\<exists>r'. mutate_genome ''ATCGATCG'' 0 rng0 = Inr (''ATCGATCG'', r')"
  by (rule mutate_genome_rate_zero)

text \<open>
  Claim C6. At rate 1 \<^verbatim>\<open>mutate_genome\<close> changes every position, whatever the random
  source draws (every draw of \<^verbatim>\<open>random.random()\<close> is below 1), and every new base is
  one of \<open>BASES\<close> and differs from the original. The input need not be over \<open>BASES\<close>.
\<close>

theorem mutate_genome_rate_one:
  "\<exists>mutated r'. mutate_genome genome 1 r = Inr (mutated, r')
     \<and> length mutated = length genome
     \<and> (\<forall>i<length genome. mutated ! i \<noteq> genome ! i \<and> mutated ! i \<in> set BASES)"
proof -
  obtain mutated r' where m: "mutate_genome genome 1 r = Inr (mutated, r')"
    and st: "list_all2 (base_step 1) genome mutated"
    using mutate_genome_steps [of genome 1 r] by blast
  have len: "length mutated = length genome" by (rule base_step_length [OF st])
  have "mutated ! i \<noteq> genome ! i \<and> mutated ! i \<in> set BASES" if i: "i < length genome" for i
    using base_step_nth [OF st i] by (auto simp: base_step_def)
  with m len show ?thesis by blast
qed

theorem mutate_genome_rate_one_witness:
  "\<exists>mutated r'. mutate_genome ''ATCG'' 1 rng0 = Inr (mutated, r')
     \<and> length mutated = 4
     \<and> mutated ! 0 \<noteq> CHR ''A'' \<and> mutated ! 1 \<noteq> CHR ''T''
     \<and> mutated ! 2 \<noteq> CHR ''C'' \<and> mutated ! 3 \<noteq> CHR ''G''"
proof -
  obtain mutated r' where m: "mutate_genome ''ATCG'' 1 rng0 = Inr (mutated, r')"
    and len: "length mutated = length ''ATCG''"
    and ch: "\<forall>i<length ''ATCG''. mutated ! i \<noteq> ''ATCG'' ! i \<and> mutated ! i \<in> set BASES"
    using mutate_genome_rate_one [of "''ATCG''" rng0] by blast
  have "mutated ! 0 \<noteq> CHR ''A''" using ch [rule_format, of 0] by simp
  moreover have "mutated ! 1 \<noteq> CHR ''T''" using ch [rule_format, of 1] by simp
  moreover have "mutated ! 2 \<noteq> CHR ''C''" using ch [rule_format, of 2] by simp
  moreover have "mutated ! 3 \<noteq> CHR ''G''" using ch [rule_format, of 3] by simp
  ultimately show ?thesis using m len by simp
qed

section \<open>The generation simulator\<close>

text \<open>A run of three generations, evaluated: two positions change in each generation.\<close>

lemma simulate_generations_example:
  "simulate_generations ''ATCGAT'' 3 (3 / 10) rng0 =
     Inr (([''ATCGAT'', ''CTCCAT'', ''ATCTAT'', ''GTCAAT''], [0, 2, 4, 6]), rng0\<lparr>pos := 24\<rparr>)"
  by (simp add: simulate_generations_def simulate_loop_numeral mutate_genome_def rng0_def
      random_random_def random_choice_def next_draw_def BASES_def py_last_def diff_count_def)

text \<open>
  Claim C1. For every initial genome, every generation count \<open>generations \<ge> 0\<close>, every
  rate and every state of the random source, \<^verbatim>\<open>simulate_generations\<close> returns a history
  of \<open>generations + 1\<close> genomes that starts with the initial genome, and a trace of
  \<open>generations + 1\<close> counts that starts with 0, never decreases, and grows from each
  index to the next by the Hamming distance between the two genomes at those indices.
  The bounds \<open>0 \<le> rate \<le> 1\<close> of the claim are not needed.
\<close>

theorem simulate_generations_history_trace:
  assumes "0 \<le> generations"
  shows "\<exists>genomes mutations r'.
     simulate_generations initial_genome generations mutation_rate r = Inr ((genomes, mutations), r')
     \<and> int (length genomes) = generations + 1
     \<and> genomes ! 0 = initial_genome
     \<and> int (length mutations) = generations + 1
     \<and> mutations ! 0 = 0
     \<and> sorted mutations
     \<and> (\<forall>i. 1 \<le> i \<and> int i \<le> generations \<longrightarrow>
           mutations ! i - mutations ! (i - 1) = hamming_distance (genomes ! (i - 1)) (genomes ! i))"
proof -
  obtain gs ms r' where
    sim: "simulate_generations initial_genome generations mutation_rate r
            = Inr ((initial_genome # gs, 0 # ms), r')"
    and len: "length gs = nat generations"
    and tr: "trace_steps mutation_rate initial_genome 0 gs ms"
    using simulate_generations_steps [of initial_genome generations mutation_rate r] by blast
  have lms: "length ms = nat generations" using trace_steps_length [OF tr] len by simp
  have srt: "sorted (0 # ms)" by (rule trace_steps_sorted [OF tr])
  have step: "(0 # ms) ! i - (0 # ms) ! (i - 1)
                = hamming_distance ((initial_genome # gs) ! (i - 1)) ((initial_genome # gs) ! i)"
    if i: "1 \<le> i \<and> int i \<le> generations" for i
  proof -
    from i obtain j where j: "i = Suc j" by (cases i) auto
    with i len have "j < length gs" by simp
    from trace_steps_nth [OF tr this] j show ?thesis
      by (simp add: diff_count_hamming)
  qed
  have "int (length (initial_genome # gs)) = generations + 1" using len assms by simp
  moreover have "int (length (0 # ms)) = generations + 1" using lms assms by simp
  moreover have "(initial_genome # gs) ! 0 = initial_genome" by simp
  moreover have "(0 # ms) ! 0 = 0" by simp
  ultimately show ?thesis using sim srt step by blast
qed

text \<open>The theorem at three generations of \<^verbatim>\<open>ATCGAT\<close> with rate 0.3.\<close>

theorem simulate_generations_history_trace_witness:
  "(0::int) \<le> 3
   \<and> (\<exists>genomes mutations r'.
        simulate_generations ''ATCGAT'' 3 (3 / 10) rng0 = Inr ((genomes, mutations), r')
        \<and> int (length genomes) = 4 \<and> genomes ! 0 = ''ATCGAT''
        \<and> int (length mutations) = 4 \<and> mutations ! 0 = 0 \<and> sorted mutations
        \<and> mutations ! 2 - mutations ! 1 = hamming_distance (genomes ! 1) (genomes ! 2))"
proof -
  have h: "(0::int) \<le> 3" by simp
  obtain genomes mutations r' where
    sim: "simulate_generations ''ATCGAT'' 3 (3 / 10) rng0 = Inr ((genomes, mutations), r')"
    and a: "int (length genomes) = 3 + 1" "genomes ! 0 = ''ATCGAT''"
      "int (length mutations) = 3 + 1" "mutations ! 0 = 0" "sorted mutations"
    and st: "\<forall>i. 1 \<le> i \<and> int i \<le> 3 \<longrightarrow>
           mutations ! i - mutations ! (i - 1) = hamming_distance (genomes ! (i - 1)) (genomes ! i)"
    using simulate_generations_history_trace [OF h, of "''ATCGAT''" "3 / 10" rng0] by blast
  have "mutations ! 2 - mutations ! 1 = hamming_distance (genomes ! 1) (genomes ! 2)"
    using st [rule_format, of 2] by simp
  with sim a h show ?thesis by simp
qed

section \<open>Closure under the alphabet\<close>



section \<open>Arguments outside the specified ranges\<close>




section \<open>The simulation after the precaution\<close>

text \<open>
  Claim C2. Whenever the precaution changes the rate, so that a run after the precaution
  is simulated, and \<open>generations \<ge> 0\<close>: with \<open>plateau_gens = generations div 2\<close> and
  \<open>repair_gens = generations - plateau_gens\<close>, the combined history and the combined
  trace consist of the active segment of \<open>plateau_gens + 1\<close> entries, the plateau segment
  of \<open>repair_gens div 2\<close> entries and the decrease segment of
  \<open>repair_gens - repair_gens div 2\<close> entries, \<open>generations + 1\<close> entries in all, as many
  as the history and the trace of the run before the precaution.
\<close>

theorem adjusted_run_length:
  assumes "0 \<le> generations"
    and "precaution mutation_total mutation_rate len = Inr (level, new_mutation_rate)"
    and "new_mutation_rate \<noteq> mutation_rate"
    and "plateau_gens = generations div 2" and "repair_gens = generations - plateau_gens"
  shows "\<exists>run r'.
     advise initial_genome mutation_rate generations mutation_total len r
       = Inr ((level, new_mutation_rate, Some run), r')
     \<and> all_genomes2 run = genomes2 run @ plateau_genomes run @ decrease_genomes run
     \<and> all_mutations2 run = mutations2 run @ plateau_mutations run @ decrease_mutations run
     \<and> int (length (genomes2 run)) = plateau_gens + 1
     \<and> int (length (mutations2 run)) = plateau_gens + 1
     \<and> int (length (plateau_genomes run)) = repair_gens div 2
     \<and> int (length (plateau_mutations run)) = repair_gens div 2
     \<and> int (length (decrease_genomes run)) = repair_gens - repair_gens div 2
     \<and> int (length (decrease_mutations run)) = repair_gens - repair_gens div 2
     \<and> int (length (all_genomes2 run)) = generations + 1
     \<and> int (length (all_mutations2 run)) = generations + 1
     \<and> (\<exists>genomes mutations r''.
           simulate_generations initial_genome generations mutation_rate r0
             = Inr ((genomes, mutations), r'')
           \<and> length genomes = length (all_genomes2 run)
           \<and> length mutations = length (all_mutations2 run))"
proof -
  have rg: "repair_gens = generations - generations div 2" using assms by simp
  have pg0: "0 \<le> plateau_gens" and rg0: "0 \<le> repair_gens" using assms by simp_all
  have rh0: "0 \<le> repair_gens div 2" using rg0 by simp
  obtain run r' gs ms ds where
    run: "simulate_after_precaution initial_genome generations new_mutation_rate r = Inr (run, r')"
    and g2: "genomes2 run = initial_genome # gs"
    and m2: "mutations2 run = 0 # ms"
    and pg: "plateau_genomes run = replicate (nat (repair_gens div 2)) (last (initial_genome # gs))"
    and pm: "plateau_mutations run = replicate (nat (repair_gens div 2)) (last (0 # ms))"
    and dg: "decrease_genomes run
               = replicate (decrease_count repair_gens) (last (initial_genome # gs))"
    and dm: "decrease_mutations run = ds"
    and ag: "all_genomes2 run = genomes2 run @ plateau_genomes run @ decrease_genomes run"
    and am: "all_mutations2 run = mutations2 run @ plateau_mutations run @ decrease_mutations run"
    and lgs: "length gs = nat (generations div 2)"
    and lms: "length ms = nat (generations div 2)"
    and dlen: "length ds = decrease_count repair_gens"
    using simulate_after_precaution_fields [OF rg, of initial_genome new_mutation_rate r]
    by blast
  have adv: "advise initial_genome mutation_rate generations mutation_total len r
       = Inr ((level, new_mutation_rate, Some run), r')"
    using assms(2,3) run by (simp add: advise_def)
  have l1: "int (length (genomes2 run)) = plateau_gens + 1"
    and l2: "int (length (mutations2 run)) = plateau_gens + 1"
    using g2 m2 lgs lms assms pg0 by simp_all
  have l3: "int (length (plateau_genomes run)) = repair_gens div 2"
    and l4: "int (length (plateau_mutations run)) = repair_gens div 2"
    using pg pm rh0 by simp_all
  have l5: "int (length (decrease_genomes run)) = repair_gens - repair_gens div 2"
    and l6: "int (length (decrease_mutations run)) = repair_gens - repair_gens div 2"
    using dg dm dlen decrease_count_nonneg [OF rg0] by simp_all
  have l7: "int (length (all_genomes2 run)) = generations + 1"
  proof -
    have "int (length (all_genomes2 run))
            = int (length (genomes2 run)) + int (length (plateau_genomes run))
              + int (length (decrease_genomes run))"
      unfolding ag by simp
    also have "\<dots> = generations + 1" unfolding l1 l3 l5 using assms by simp
    finally show ?thesis .
  qed
  have l8: "int (length (all_mutations2 run)) = generations + 1"
  proof -
    have "int (length (all_mutations2 run))
            = int (length (mutations2 run)) + int (length (plateau_mutations run))
              + int (length (decrease_mutations run))"
      unfolding am by simp
    also have "\<dots> = generations + 1" unfolding l2 l4 l6 using assms by simp
    finally show ?thesis .
  qed
  obtain gs0 ms0 r'' where
    sim: "simulate_generations initial_genome generations mutation_rate r0
            = Inr ((initial_genome # gs0, 0 # ms0), r'')"
    and len0: "length gs0 = nat generations"
    and tr0: "trace_steps mutation_rate initial_genome 0 gs0 ms0"
    using simulate_generations_steps [of initial_genome generations mutation_rate r0] by blast
  have "int (length (initial_genome # gs0)) = generations + 1" using len0 assms(1) by simp
  with l7 have e1: "length (initial_genome # gs0) = length (all_genomes2 run)" by linarith
  have "int (length (0 # ms0)) = generations + 1"
    using trace_steps_length [OF tr0] len0 assms(1) by simp
  with l8 have e2: "length (0 # ms0) = length (all_mutations2 run)" by linarith
  have orig: "\<exists>genomes mutations r''.
           simulate_generations initial_genome generations mutation_rate r0
             = Inr ((genomes, mutations), r'')
           \<and> length genomes = length (all_genomes2 run)
           \<and> length mutations = length (all_mutations2 run)"
    using sim e1 e2 by blast
  show ?thesis
    by (rule exI [of _ run], rule exI [of _ r'])
      (intro conjI adv ag am l1 l2 l3 l4 l5 l6 l7 l8 orig)
qed

text \<open>
  The theorem at five generations: level High at rate 0.5, adjusted rate 0.25, segments
  of 3, 1 and 2 entries.
\<close>

lemma precaution_example: "precaution 0 (1 / 2) 10 = Inr (High, 1 / 4)"
  by code_simp

theorem adjusted_run_length_witness:
  "(0::int) \<le> 5
   \<and> precaution 0 (1 / 2) 10 = Inr (High, 1 / 4)
   \<and> (1 / 4 :: real) \<noteq> 1 / 2
   \<and> (2::int) = 5 div 2 \<and> (3::int) = 5 - 2
   \<and> (\<exists>run r'.
        advise ''ATCGATCGAT'' (1 / 2) 5 0 10 rng0 = Inr ((High, 1 / 4, Some run), r')
        \<and> int (length (genomes2 run)) = 3
        \<and> int (length (plateau_genomes run)) = 1
        \<and> int (length (decrease_genomes run)) = 2
        \<and> int (length (all_genomes2 run)) = 6
        \<and> int (length (all_mutations2 run)) = 6)"
proof -
  have h1: "(0::int) \<le> 5" by simp
  have h3: "(1 / 4 :: real) \<noteq> 1 / 2" by simp
  have h4: "(2::int) = 5 div 2" and h5: "(3::int) = 5 - 2" by simp_all
  from adjusted_run_length [OF h1 precaution_example h3 h4 h5, of "''ATCGATCGAT''" rng0 rng0]
  have "\<exists>run r'.
        advise ''ATCGATCGAT'' (1 / 2) 5 0 10 rng0 = Inr ((High, 1 / 4, Some run), r')
        \<and> int (length (genomes2 run)) = 3
        \<and> int (length (plateau_genomes run)) = 1
        \<and> int (length (decrease_genomes run)) = 2
        \<and> int (length (all_genomes2 run)) = 6
        \<and> int (length (all_mutations2 run)) = 6"
    by auto
  with h1 precaution_example h3 h4 h5 show ?thesis by blast
qed

text \<open>
  Claim C8. For \<open>generations \<ge> 0\<close>, the decrease segment has
  \<open>repair_gens - repair_gens div 2\<close> entries; at each of its indices \<open>k\<close> (from
  \<open>plateau_gens + 1 + repair_gens div 2\<close> to \<open>generations\<close>) the count is the count at
  \<open>k - 1\<close> less \<open>max 1 (plateau_mutation div repair_gens)\<close>, but not below 0, and the
  genome is the last genome of the active segment; no count of the combined trace is
  negative.
\<close>

theorem decrease_phase:
  assumes "0 \<le> generations"
    and "plateau_gens = generations div 2" and "repair_gens = generations - plateau_gens"
  shows "\<exists>run r'.
     simulate_after_precaution initial_genome generations new_mutation_rate r = Inr (run, r')
     \<and> all_mutations2 run = mutations2 run @ plateau_mutations run @ decrease_mutations run
     \<and> all_genomes2 run = genomes2 run @ plateau_genomes run @ decrease_genomes run
     \<and> int (length (decrease_mutations run)) = repair_gens - repair_gens div 2
     \<and> int (length (decrease_genomes run)) = repair_gens - repair_gens div 2
     \<and> int (length (all_mutations2 run)) = generations + 1
     \<and> (\<forall>k. plateau_gens + 1 + repair_gens div 2 \<le> int k \<and> int k \<le> generations \<longrightarrow>
           all_mutations2 run ! k
             = max 0 (all_mutations2 run ! (k - 1)
                      - max 1 (last (mutations2 run) div repair_gens))
           \<and> all_genomes2 run ! k = last (genomes2 run))
     \<and> (\<forall>k<length (all_mutations2 run). 0 \<le> all_mutations2 run ! k)"
proof -
  have rg: "repair_gens = generations - generations div 2" using assms by simp
  have pg0: "0 \<le> plateau_gens" and rg0: "0 \<le> repair_gens" using assms by simp_all
  have rh0: "0 \<le> repair_gens div 2" and rh1: "repair_gens div 2 \<le> repair_gens"
    using rg0 by simp_all
  obtain run r' gs ms ds where
    run: "simulate_after_precaution initial_genome generations new_mutation_rate r = Inr (run, r')"
    and g2: "genomes2 run = initial_genome # gs"
    and m2: "mutations2 run = 0 # ms"
    and pg: "plateau_genomes run = replicate (nat (repair_gens div 2)) (last (initial_genome # gs))"
    and pm: "plateau_mutations run = replicate (nat (repair_gens div 2)) (last (0 # ms))"
    and dg: "decrease_genomes run
               = replicate (decrease_count repair_gens) (last (initial_genome # gs))"
    and dm: "decrease_mutations run = ds"
    and ag: "all_genomes2 run = genomes2 run @ plateau_genomes run @ decrease_genomes run"
    and am: "all_mutations2 run = mutations2 run @ plateau_mutations run @ decrease_mutations run"
    and lgs: "length gs = nat (generations div 2)"
    and lms: "length ms = nat (generations div 2)"
    and tr: "trace_steps new_mutation_rate initial_genome 0 gs ms"
    and dlen: "length ds = decrease_count repair_gens"
    and dst: "decay_steps (max 1 (last (0 # ms) div repair_gens)) (last (0 # ms)) ds"
    using simulate_after_precaution_fields [OF rg, of initial_genome new_mutation_rate r]
    by blast
  let ?step = "max 1 (last (mutations2 run) div repair_gens)"
  let ?xs = "mutations2 run @ plateau_mutations run"
  let ?ys = "genomes2 run @ plateau_genomes run"
  have dst': "decay_steps ?step (last (mutations2 run)) ds" using dst m2 by simp
  have xs_ne: "?xs \<noteq> []" using m2 by simp
  have xs_last: "last ?xs = last (mutations2 run)"
    using m2 pm by (cases "nat (repair_gens div 2)") simp_all
  have lxs: "int (length ?xs) = plateau_gens + 1 + repair_gens div 2"
    using m2 pm lms assms pg0 rh0 by simp
  have lys: "length ?ys = length ?xs" using g2 m2 pg pm lgs lms by simp
  have ldm: "int (length (decrease_mutations run)) = repair_gens - repair_gens div 2"
    using dm dlen decrease_count_nonneg [OF rg0] by simp
  have ldg: "int (length (decrease_genomes run)) = repair_gens - repair_gens div 2"
    using dg decrease_count_nonneg [OF rg0] by simp
  have am': "all_mutations2 run = ?xs @ ds" using am dm by simp
  have ag': "all_genomes2 run = ?ys @ replicate (length ds) (last (genomes2 run))"
    using ag dg g2 dlen by simp
  have lam: "int (length (all_mutations2 run)) = generations + 1"
  proof -
    have "int (length (all_mutations2 run)) = int (length ?xs) + int (length ds)"
      unfolding am' by simp
    also have "\<dots> = plateau_gens + 1 + repair_gens div 2 + (repair_gens - repair_gens div 2)"
      using lxs ldm dm by simp
    also have "\<dots> = generations + 1" using assms by simp
    finally show ?thesis .
  qed
  have slot: "all_mutations2 run ! k = max 0 (all_mutations2 run ! (k - 1) - ?step)
              \<and> all_genomes2 run ! k = last (genomes2 run)"
    if k: "plateau_gens + 1 + repair_gens div 2 \<le> int k \<and> int k \<le> generations" for k
  proof -
    from k lxs have le: "length ?xs \<le> k" by linarith
    have "int k < int (length (all_mutations2 run))" using k lam by linarith
    then have "k < length ?xs + length ds" unfolding am' by simp
    with le have lt: "k - length ?xs < length ds" by linarith
    from nth_after_prefix [OF xs_ne le, of ds] xs_last
    have a: "(?xs @ ds) ! k = ds ! (k - length ?xs)"
      and b: "(?xs @ ds) ! (k - 1) = (last (mutations2 run) # ds) ! (k - length ?xs)"
      by simp_all
    from decay_steps_nth [OF dst' lt]
    have "ds ! (k - length ?xs)
            = max 0 ((last (mutations2 run) # ds) ! (k - length ?xs) - ?step)"
      by (simp add: py_max_eq_max)
    with a b have c: "all_mutations2 run ! k = max 0 (all_mutations2 run ! (k - 1) - ?step)"
      unfolding am' by simp
    from le lys have le2: "length ?ys \<le> k" by simp
    from lt lys have lt2: "k - length ?ys < length ds" by simp
    have "(?ys @ replicate (length ds) (last (genomes2 run))) ! k
            = replicate (length ds) (last (genomes2 run)) ! (k - length ?ys)"
      using le2 by (simp only: nth_append) simp
    with lt2 have "all_genomes2 run ! k = last (genomes2 run)"
      unfolding ag' by simp
    with c show ?thesis by simp
  qed
  have nonneg: "0 \<le> all_mutations2 run ! k" if k: "k < length (all_mutations2 run)" for k
  proof -
    have "all_mutations2 run ! k \<in> set (all_mutations2 run)" using k by (rule nth_mem)
    then have "all_mutations2 run ! k \<in> set (0 # ms) \<or> all_mutations2 run ! k \<in> set ds"
      unfolding am m2 pm dm using last_in_set [of "0 # ms"] by (auto split: if_splits)
    then show ?thesis
    proof
      assume "all_mutations2 run ! k \<in> set (0 # ms)"
      then show ?thesis using trace_steps_nonneg [OF tr, of "all_mutations2 run ! k"] by auto
    next
      assume "all_mutations2 run ! k \<in> set ds"
      then show ?thesis by (rule decay_steps_nonneg [OF dst'])
    qed
  qed
  have slots: "\<forall>k. plateau_gens + 1 + repair_gens div 2 \<le> int k \<and> int k \<le> generations \<longrightarrow>
           all_mutations2 run ! k = max 0 (all_mutations2 run ! (k - 1) - ?step)
           \<and> all_genomes2 run ! k = last (genomes2 run)"
    using slot by blast
  have nonnegs: "\<forall>k<length (all_mutations2 run). 0 \<le> all_mutations2 run ! k"
    using nonneg by blast
  show ?thesis
    by (rule exI [of _ run], rule exI [of _ r'])
      (intro conjI run am ag ldm ldg lam slots nonnegs)
qed

text \<open>The theorem at five generations: the decrease segment is at indices 4 and 5.\<close>

theorem decrease_phase_witness:
  "(0::int) \<le> 5 \<and> (2::int) = 5 div 2 \<and> (3::int) = 5 - 2
   \<and> (\<exists>run r'. simulate_after_precaution ''ATCGAT'' 5 (1 / 2) rng0 = Inr (run, r')
        \<and> int (length (decrease_mutations run)) = 2
        \<and> all_mutations2 run ! 4
            = max 0 (all_mutations2 run ! 3 - max 1 (last (mutations2 run) div 3))
        \<and> all_mutations2 run ! 5
            = max 0 (all_mutations2 run ! 4 - max 1 (last (mutations2 run) div 3))
        \<and> all_genomes2 run ! 5 = last (genomes2 run)
        \<and> 0 \<le> all_mutations2 run ! 5)"
proof -
  have h: "(0::int) \<le> 5" "(2::int) = 5 div 2" "(3::int) = 5 - 2" by simp_all
  obtain run r' where
    run: "simulate_after_precaution ''ATCGAT'' 5 (1 / 2) rng0 = Inr (run, r')"
    and ld: "int (length (decrease_mutations run)) = 3 - 3 div 2"
    and la: "int (length (all_mutations2 run)) = 5 + 1"
    and sl: "\<forall>k. 2 + 1 + 3 div 2 \<le> int k \<and> int k \<le> 5 \<longrightarrow>
           all_mutations2 run ! k
             = max 0 (all_mutations2 run ! (k - 1) - max 1 (last (mutations2 run) div 3))
           \<and> all_genomes2 run ! k = last (genomes2 run)"
    and nn: "\<forall>k<length (all_mutations2 run). 0 \<le> all_mutations2 run ! k"
    using decrease_phase [OF h, of "''ATCGAT''" "1 / 2" rng0] by blast
  from la have l6: "length (all_mutations2 run) = 6" by simp
  have s4: "all_mutations2 run ! 4
            = max 0 (all_mutations2 run ! 3 - max 1 (last (mutations2 run) div 3))"
    using sl [rule_format, of 4] by simp
  have s5: "all_mutations2 run ! 5
            = max 0 (all_mutations2 run ! 4 - max 1 (last (mutations2 run) div 3))
           \<and> all_genomes2 run ! 5 = last (genomes2 run)"
    using sl [rule_format, of 5] by simp
  have n5: "0 \<le> all_mutations2 run ! 5" using nn [rule_format, of 5] l6 by simp
  from ld have ld2: "int (length (decrease_mutations run)) = 2" by simp
  show ?thesis using h run ld2 s4 s5 n5 by blast
qed



section \<open>The precaution level\<close>

text \<open>
  The binary64 values of the float literals of the program, and of the product
  \<^verbatim>\<open>length * 0.7\<close> at lengths 90 and 100: the literal \<^verbatim>\<open>0.7\<close> is slightly below 7/10,
  and the product with 90 rounds to the float just below 63, whereas the product with 100
  rounds to 70.
\<close>

lemma float_literals:
  "fl (7 / 10) = 3152519739159347 / 2 ^ 52"
  "fl (3 / 10) = 5404319552844595 / 2 ^ 54"
  "fl (15 / 100) = 5404319552844595 / 2 ^ 55"
  "fl (1 / 100) = 5764607523034235 / 2 ^ 59"
  "fl (1 / 2) = 1 / 2"
  "fmul 90 (fl (7 / 10)) = 8866461766385663 / 2 ^ 47"
  "fmul 100 (fl (7 / 10)) = 70"
  by code_simp+

text \<open>
  The structure of the classification as the program computes it: the first test that
  holds decides, and the level Low leaves the rate unchanged, so that no run is simulated
  after the precaution.
\<close>

lemma precaution_first_match:
  assumes "float_of_int len = Inr flen"
  shows "precaution mutation_total mutation_rate len =
     Inr (if fmul flen (fl (7 / 10)) < of_int mutation_total \<or> fl (3 / 10) < mutation_rate
          then (High, max (fl (1 / 100)) (fmul mutation_rate (fl (1 / 2))))
          else if fmul flen (fl (3 / 10)) < of_int mutation_total \<or> fl (15 / 100) < mutation_rate
          then (Moderate, max (fl (1 / 100)) (fmul mutation_rate (fl (7 / 10))))
          else (Low, mutation_rate))"
  using assms by (simp add: precaution_def py_max_eq_max)

lemma advise_low:
  assumes "precaution mutation_total mutation_rate len = Inr (Low, new_mutation_rate)"
  shows "advise initial_genome mutation_rate generations mutation_total len r
           = Inr ((Low, mutation_rate, None), r)"
proof -
  from assms have "new_mutation_rate = mutation_rate"
    by (auto simp: precaution_def Let_def split: sum.splits if_splits)
  with assms show ?thesis by (simp add: advise_def)
qed

text \<open>
  Claim C3 says that the level is High exactly when
  \<open>final_mutation_total > 0.7 * length\<close> or \<open>rate > 0.30\<close>. At length 90, 63 mutations
  and rate 0.25 neither holds (63 is not above 63, 0.25 is not above 0.30), so the claim
  gives Moderate with adjusted rate 0.175. The program computes the threshold
  \<^verbatim>\<open>length * 0.7\<close> in binary64, where it is just below 63, classifies the run as High and
  halves the rate to 0.125. At length 100 and 70 mutations, the same 70 per cent, the
  program agrees with the claim: Moderate.
\<close>

theorem precaution_threshold_rounding:
  "precaution 63 (1 / 4) 90 = Inr (High, 1 / 8)
   \<and> spec_tier 63 (1 / 4) 90 = Moderate
   \<and> spec_adjusted_rate (spec_tier 63 (1 / 4) 90) (1 / 4) = 7 / 40
   \<and> precaution 70 (1 / 4) 100 = Inr (Moderate, fmul (1 / 4) (fl (7 / 10)))
   \<and> spec_tier 70 (1 / 4) 100 = Moderate"
proof -
  have a: "precaution 63 (1 / 4) 90 = Inr (High, 1 / 8)" by code_simp
  have b: "spec_tier 63 (1 / 4) 90 = Moderate" by (simp add: spec_tier_def)
  have c: "spec_adjusted_rate Moderate (1 / 4) = 7 / 40" by (simp add: spec_adjusted_rate_def)
  have d: "precaution 70 (1 / 4) 100 = Inr (Moderate, fmul (1 / 4) (fl (7 / 10)))" by code_simp
  have e: "spec_tier 70 (1 / 4) 100 = Moderate" by (simp add: spec_tier_def)
  from a b c d e show ?thesis by simp
qed

end
